theory Spec2Isabelle
  imports Complex_Main "HOL-Library.Multiset"
begin

section \<open>Data model of \<open>discharge_cycle.py\<close>\<close>

text \<open>
  Python floats are modelled as \<^typ>\<open>real\<close>: the code only compares, adds and subtracts
  them, and the values \<open>nan\<close> and \<open>inf\<close> are outside the model. A schedule point is the
  dictionary \<open>{'time': ..., 'current': ...}\<close> that \<open>load_schedule\<close> builds; since both keys
  are always present it is a record.
\<close>

record point =
  time :: real
  current :: real

text \<open>
  Exceptions. \<open>KeyboardInterrupt\<close> and \<open>SystemExit\<close> derive from \<open>BaseException\<close> only;
  everything under \<open>Exc\<close> derives from \<open>Exception\<close> and is what \<open>except Exception\<close> catches.
\<close>

datatype exc_class =
  FileNotFoundError | KeyError | ValueError | TypeError | IndexError | OSError
  | SerialException | OtherError string

datatype exn = KeyboardInterrupt | SystemExit nat | Exc exc_class

text \<open>The handle that \<open>KELSerial(port).__enter__()\<close> returns; only its presence matters.\<close>

datatype handle = KEL string

record scheduler =
  port :: string
  schedule_file :: string
  log_file :: string
  schedule :: "point list"
  load :: "handle option"
  running :: bool
  logging_interval :: real

text \<open>\<open>__init__\<close>; the caller in \<open>main\<close> leaves \<open>logging_interval\<close> at its default \<open>1.0\<close>.\<close>

definition init :: "string \<Rightarrow> string \<Rightarrow> string \<Rightarrow> real \<Rightarrow> scheduler" where
  "init p sf lf li =
     \<lparr>port = p, schedule_file = sf, log_file = lf, schedule = [], load = None,
      running = False, logging_interval = li\<rparr>"

section \<open>Loading the schedule\<close>

text \<open>
  A row as \<open>csv.DictReader\<close> yields it: a dictionary from column names to cells. A column
  that the header does not have is absent (\<open>KeyError\<close> on access); a column that a short
  line does not fill holds \<open>None\<close>, which \<open>float\<close> rejects with \<open>TypeError\<close>; a cell whose
  text is not a number makes \<open>float\<close> raise \<open>ValueError\<close>. The builtin \<open>float\<close> on text is a
  parameter \<open>pf\<close> of the model (\<open>None\<close> for \<open>ValueError\<close>).
\<close>

type_synonym row = "string \<rightharpoonup> string option"

definition float_of_field :: "(string \<Rightarrow> real option) \<Rightarrow> row \<Rightarrow> string \<Rightarrow> exn + real" where
  "float_of_field pf r k =
     (case r k of
        None \<Rightarrow> Inl (Exc KeyError)
      | Some None \<Rightarrow> Inl (Exc TypeError)
      | Some (Some s) \<Rightarrow> (case pf s of None \<Rightarrow> Inl (Exc ValueError) | Some x \<Rightarrow> Inr x))"

text \<open>
  The \<open>for row in reader\<close> loop: each row appends one point to \<open>self.schedule\<close>; the first
  exception leaves the loop with the points appended so far.
\<close>

fun read_rows :: "(string \<Rightarrow> real option) \<Rightarrow> row list \<Rightarrow> point list \<Rightarrow> exn option \<times> point list" where
  "read_rows pf [] sched = (None, sched)"
| "read_rows pf (r # rs) sched =
     (case float_of_field pf r ''time_seconds'' of
        Inl e \<Rightarrow> (Some e, sched)
      | Inr time_sec \<Rightarrow>
          (case float_of_field pf r ''current_amps'' of
             Inl e \<Rightarrow> (Some e, sched)
           | Inr cur \<Rightarrow> read_rows pf rs (sched @ [\<lparr>time = time_sec, current = cur\<rparr>])))"

text \<open>
  The two \<open>except\<close> clauses of \<open>load_schedule\<close>: \<open>FileNotFoundError\<close>, \<open>KeyError\<close> and
  \<open>ValueError\<close> end in \<open>sys.exit(1)\<close>; any other exception propagates unchanged.
\<close>

fun load_handler :: "exn \<Rightarrow> exn" where
  "load_handler (Exc FileNotFoundError) = SystemExit 1"
| "load_handler (Exc KeyError) = SystemExit 1"
| "load_handler (Exc ValueError) = SystemExit 1"
| "load_handler e = e"

text \<open>\<open>self.schedule.sort(key=lambda x: x['time'])\<close>: Python's sort is stable.\<close>

definition sort_schedule :: "point list \<Rightarrow> point list" where
  "sort_schedule ps = sort_key time ps"

text \<open>
  \<open>load_schedule\<close>. The source is either the exception that \<open>open\<close> raises or the rows of
  the file. The result is the exception leaving the method, if any, and the scheduler as
  the method leaves it. Progress messages are not modelled.
\<close>

definition load_schedule ::
  "(string \<Rightarrow> real option) \<Rightarrow> exn + row list \<Rightarrow> scheduler \<Rightarrow> exn option \<times> scheduler" where
  "load_schedule pf src self =
     (case src of
        Inl e \<Rightarrow> (Some (load_handler e), self)
      | Inr rows \<Rightarrow>
          (case read_rows pf rows (schedule self) of
             (Some e, sched) \<Rightarrow> (Some (load_handler e), self\<lparr>schedule := sched\<rparr>)
           | (None, sched) \<Rightarrow> (None, self\<lparr>schedule := sort_schedule sched\<rparr>)))"

text \<open>
  The plain-decimal fragment of Python's \<open>float\<close> on text: an optional sign, digits, and
  optionally a point followed by digits. It is used for concrete inputs only; on every text
  it accepts it yields the number Python reads there.
\<close>

definition digit_val :: "char \<Rightarrow> nat option" where
  "digit_val c =
     (let n = (of_char c :: nat) in if 48 \<le> n \<and> n \<le> 57 then Some (n - 48) else None)"

fun digits_val :: "string \<Rightarrow> nat \<Rightarrow> nat option" where
  "digits_val [] acc = Some acc"
| "digits_val (c # cs) acc =
     (case digit_val c of None \<Rightarrow> None | Some d \<Rightarrow> digits_val cs (10 * acc + d))"

definition unsigned_dec :: "string \<Rightarrow> real option" where
  "unsigned_dec s =
     (let ip = takeWhile (\<lambda>c. c \<noteq> CHR ''.'') s;
          rest = dropWhile (\<lambda>c. c \<noteq> CHR ''.'') s;
          fp = (if rest = [] then [] else tl rest)
      in if ip = [] \<and> fp = [] then None
         else case digits_val ip 0 of
                None \<Rightarrow> None
              | Some i \<Rightarrow>
                  (case digits_val fp 0 of
                     None \<Rightarrow> None
                   | Some f \<Rightarrow> Some (real i + real f / 10 ^ length fp)))"

definition float_dec :: "string \<Rightarrow> real option" where
  "float_dec s =
     (case s of
        [] \<Rightarrow> None
      | c # cs \<Rightarrow>
          if c = CHR ''-'' then map_option uminus (unsigned_dec cs)
          else if c = CHR ''+'' then unsigned_dec cs
          else unsigned_dec s)"

section \<open>Schedule lookup\<close>

text \<open>\<open>xs[i]\<close> for a non-negative index: \<open>IndexError\<close> out of range.\<close>

definition index_py :: "'a list \<Rightarrow> nat \<Rightarrow> exn + 'a" where
  "index_py xs i = (if i < length xs then Inr (xs ! i) else Inl (Exc IndexError))"

text \<open>
  The \<open>for point in self.schedule\<close> loop of \<open>get_scheduled_current\<close>, with its \<open>break\<close>:
  the third argument is the local variable \<open>current\<close>.
\<close>

fun scan :: "real \<Rightarrow> point list \<Rightarrow> real \<Rightarrow> real" where
  "scan elapsed_time [] cur = cur"
| "scan elapsed_time (p # ps) cur =
     (if elapsed_time \<ge> time p then scan elapsed_time ps (current p) else cur)"

definition get_scheduled_current :: "scheduler \<Rightarrow> real \<Rightarrow> exn + real" where
  "get_scheduled_current self elapsed_time =
     (if schedule self = [] then Inr 0
      else case index_py (schedule self) 0 of
             Inl e \<Rightarrow> Inl e
           | Inr p0 \<Rightarrow> Inr (scan elapsed_time (schedule self) (current p0)))"

text \<open>
  The lookup rule in the words of the specification: the setpoint of the last point whose
  offset is at most the elapsed time; the first point's setpoint when no offset has been
  reached; zero for the empty schedule.
\<close>

definition CurrentAt_spec :: "point list \<Rightarrow> real \<Rightarrow> real" where
  "CurrentAt_spec ps elapsed =
     (if ps = [] then 0
      else let reached = filter (\<lambda>p. time p \<le> elapsed) ps
           in if reached = [] then current (hd ps) else current (last reached))"

text \<open>The schedule of the module's docstring, and a scheduler holding it.\<close>

definition example_points :: "point list" where
  "example_points =
     [\<lparr>time = 0, current = 1\<rparr>, \<lparr>time = 300, current = 2\<rparr>,
      \<lparr>time = 600, current = 3 / 2\<rparr>, \<lparr>time = 900, current = 1 / 2\<rparr>]"

definition fresh :: scheduler where
  "fresh = init ''/dev/ttyACM0'' ''schedule.csv'' ''voltage_log.csv'' 1"

section \<open>The device and the world around the scheduler\<close>

text \<open>
  Everything \<open>run\<close> does outside the interpreter is an operation on the world: the calls
  into \<open>kelctl\<close> (connecting, the \<open>model\<close> and \<open>status\<close> properties, the \<open>current\<close> setter,
  \<open>input.on()\<close>, \<open>input.off()\<close>, the three measurements, and the release of the serial
  port when the \<open>with\<close> block is left), the log file (\<open>initialize_log_file\<close> and the
  append of one row), \<open>time.time()\<close> and \<open>time.sleep\<close>.
\<close>

datatype command =
  Connect | Release | QueryModel | QueryStatus | SetCurrent real | InputOn | InputOff
  | InitLog | ClockRead | MeasureVoltage | MeasureCurrent | MeasurePower
  | Append real real real real | Sleep real

text \<open>
  What the world answers to an operation: a value (ignored by operations that return
  nothing) or an exception raised inside it, which is also how a \<open>Ctrl+C\<close> arriving
  during the operation shows.
\<close>

datatype outcome = Returns real | Raises exn

text \<open>The \<open>print\<close> calls of \<open>run\<close>, \<open>initialize_log_file\<close> and \<open>cleanup\<close>; they are assumed not to fail.\<close>

datatype msg =
  Connecting | ConnectedTo | StatusIs | SettingMode | TurningOnInput | InitializedLog
  | Starting | PressCtrlC | StatusLine real real real real | Stopping | ErrorMsg exn
  | TurningOff | TurnedOffSafely | CleanupError exn | LoggedTo

datatype event = Op command outcome | Say msg

text \<open>
  The world: the scheduler object, the number of operations performed so far, and the
  history of operations (each with its outcome) and messages. The environment is a total
  function giving the outcome of the \<open>n\<close>-th operation.
\<close>

record world =
  obj :: scheduler
  ops :: nat
  trace :: "event list"

type_synonym env = "nat \<Rightarrow> outcome"

text \<open>
  A statement returns, raises, or is still running when the fuel of the control loop
  (a bound on the number of ticks observed) is used up.
\<close>

datatype 'a res = Ret 'a | Exn exn | Pending

type_synonym 'a prog = "world \<Rightarrow> 'a res \<times> world"

definition return :: "'a \<Rightarrow> 'a prog" where
  "return a w = (Ret a, w)"

definition raise :: "exn \<Rightarrow> 'a prog" where
  "raise x w = (Exn x, w)"

definition andthen :: "'a prog \<Rightarrow> ('a \<Rightarrow> 'b prog) \<Rightarrow> 'b prog" where
  "andthen m f w =
     (case m w of
        (Ret a, w') \<Rightarrow> f a w'
      | (Exn x, w') \<Rightarrow> (Exn x, w')
      | (Pending, w') \<Rightarrow> (Pending, w'))"

definition lift :: "exn + 'a \<Rightarrow> 'a prog" where
  "lift r w = (case r of Inl e \<Rightarrow> (Exn e, w) | Inr a \<Rightarrow> (Ret a, w))"

definition perform :: "env \<Rightarrow> command \<Rightarrow> real prog" where
  "perform env c w =
     (let oc = env (ops w);
          w' = w\<lparr>ops := ops w + 1, trace := trace w @ [Op c oc]\<rparr>
      in case oc of Returns v \<Rightarrow> (Ret v, w') | Raises x \<Rightarrow> (Exn x, w'))"

definition say :: "msg \<Rightarrow> unit prog" where
  "say m w = (Ret (), w\<lparr>trace := trace w @ [Say m]\<rparr>)"

definition set_running :: "bool \<Rightarrow> unit prog" where
  "set_running b w = (Ret (), w\<lparr>obj := (obj w)\<lparr>running := b\<rparr>\<rparr>)"

text \<open>\<open>try: m except Exception as e: h e\<close>.\<close>

definition except_Exception :: "'a prog \<Rightarrow> (exn \<Rightarrow> 'a prog) \<Rightarrow> 'a prog" where
  "except_Exception m h w =
     (case m w of
        (Exn (Exc c), w') \<Rightarrow> h (Exc c) w'
      | (r, w') \<Rightarrow> (r, w'))"

text \<open>
  \<open>try: m finally: c\<close>: the handler \<open>c\<close> runs when \<open>m\<close> returns or raises; an exception of
  \<open>c\<close> replaces the outcome of \<open>m\<close>.
\<close>

definition try_finally :: "'a prog \<Rightarrow> unit prog \<Rightarrow> 'a prog" where
  "try_finally m c w =
     (case m w of
        (Pending, w') \<Rightarrow> (Pending, w')
      | (r, w') \<Rightarrow>
          (case c w' of
             (Ret u, w'') \<Rightarrow> (r, w'')
           | (Exn x, w'') \<Rightarrow> (Exn x, w'')
           | (Pending, w'') \<Rightarrow> (Pending, w'')))"

section \<open>\<open>cleanup\<close>\<close>

text \<open>
  \<open>if self.load:\<close> holds exactly when a handle has been assigned (an object without
  \<open>__bool__\<close> and \<open>__len__\<close> is true). Both shutdown commands stand in one \<open>try\<close> block whose
  \<open>except Exception\<close> prints the error; the last two statements follow the block.
\<close>

definition cleanup :: "env \<Rightarrow> unit prog" where
  "cleanup env w =
     andthen
       (if load (obj w) \<noteq> None then
          except_Exception
            (andthen (say TurningOff) (\<lambda>_.
             andthen (perform env (SetCurrent 0)) (\<lambda>_.
             andthen (perform env InputOff) (\<lambda>_.
             say TurnedOffSafely))))
            (\<lambda>e. say (CleanupError e))
        else return ())
       (\<lambda>_. andthen (set_running False) (\<lambda>_. say LoggedTo)) w"

section \<open>\<open>run\<close>\<close>

definition initialize_log_file :: "env \<Rightarrow> unit prog" where
  "initialize_log_file env = andthen (perform env InitLog) (\<lambda>_. say InitializedLog)"

text \<open>
  One pass through the body of \<open>while self.running\<close>; the result is the new value of
  \<open>next_log_time\<close>. No attribute of the scheduler is assigned in the body, so the
  schedule and the logging interval are those of the world the pass starts in.
\<close>

definition tick :: "env \<Rightarrow> real \<Rightarrow> real \<Rightarrow> real prog" where
  "tick env start_time next_log_time w =
     andthen (perform env ClockRead) (\<lambda>current_time.
     andthen (lift (get_scheduled_current (obj w) (current_time - start_time))) (\<lambda>scheduled_current.
     andthen (perform env (SetCurrent scheduled_current)) (\<lambda>_.
     andthen
       (if current_time \<ge> next_log_time then
          andthen (perform env MeasureVoltage) (\<lambda>voltage.
          andthen (perform env MeasureCurrent) (\<lambda>cur.
          andthen (perform env MeasurePower) (\<lambda>power.
          andthen (perform env (Append (current_time - start_time) voltage cur power)) (\<lambda>_.
          andthen (say (StatusLine (current_time - start_time) voltage cur power)) (\<lambda>_.
          return (current_time + logging_interval (obj w)))))))
        else return next_log_time) (\<lambda>next_log_time'.
     andthen (perform env ClockRead) (\<lambda>t.
     andthen (perform env (Sleep (max 0 (next_log_time' - t)))) (\<lambda>_.
     return next_log_time')))))) w"

text \<open>
  \<open>while self.running: ...\<close>. The loop has no exit of its own, so the model counts the
  passes it is allowed: with none left the loop is still running.
\<close>

fun loop :: "env \<Rightarrow> real \<Rightarrow> nat \<Rightarrow> real \<Rightarrow> unit prog" where
  "loop env start_time 0 next_log_time w =
     (if running (obj w) then (Pending, w) else (Ret (), w))"
| "loop env start_time (Suc fuel) next_log_time w =
     (if running (obj w) then
        (case tick env start_time next_log_time w of
           (Ret next_log_time', w') \<Rightarrow> loop env start_time fuel next_log_time' w'
         | (Exn x, w') \<Rightarrow> (Exn x, w')
         | (Pending, w') \<Rightarrow> (Pending, w'))
      else (Ret (), w))"

text \<open>The body of the \<open>with\<close> statement.\<close>

definition session :: "env \<Rightarrow> nat \<Rightarrow> unit prog" where
  "session env fuel =
     andthen (perform env QueryModel) (\<lambda>_.
     andthen (say ConnectedTo) (\<lambda>_.
     andthen (perform env QueryStatus) (\<lambda>_.
     andthen (say StatusIs) (\<lambda>_.
     andthen (say SettingMode) (\<lambda>_.
     andthen (perform env (SetCurrent 0)) (\<lambda>_.
     andthen (say TurningOnInput) (\<lambda>_.
     andthen (perform env InputOn) (\<lambda>_.
     andthen (initialize_log_file env) (\<lambda>_.
     andthen (say Starting) (\<lambda>_.
     andthen (say PressCtrlC) (\<lambda>_.
     andthen (perform env ClockRead) (\<lambda>start_time.
     andthen (set_running True) (\<lambda>_.
     loop env start_time fuel start_time)))))))))))))"

text \<open>
  \<open>with KELSerial(self.port) as self.load: body\<close>. When connecting raises, nothing is
  assigned to \<open>self.load\<close>. When the body returns or raises, the context manager releases
  the serial port; an exception of the release replaces the outcome of the body.
\<close>

definition with_KELSerial :: "env \<Rightarrow> unit prog \<Rightarrow> unit prog" where
  "with_KELSerial env body w =
     (case perform env Connect w of
        (Ret h, w1) \<Rightarrow>
          (case body (w1\<lparr>obj := (obj w1)\<lparr>load := Some (KEL (port (obj w1)))\<rparr>\<rparr>) of
             (Pending, w2) \<Rightarrow> (Pending, w2)
           | (r, w2) \<Rightarrow>
               (case perform env Release w2 of
                  (Exn x, w3) \<Rightarrow> (Exn x, w3)
                | (r', w3) \<Rightarrow> (r, w3)))
      | (Exn x, w1) \<Rightarrow> (Exn x, w1)
      | (Pending, w1) \<Rightarrow> (Pending, w1))"

text \<open>The two \<open>except\<close> clauses of \<open>run\<close>.\<close>

definition run_handlers :: "unit prog \<Rightarrow> unit prog" where
  "run_handlers m w =
     (case m w of
        (Exn KeyboardInterrupt, w') \<Rightarrow> say Stopping w'
      | (Exn (Exc c), w') \<Rightarrow> andthen (say (ErrorMsg (Exc c))) (\<lambda>_. raise (Exc c)) w'
      | (r, w') \<Rightarrow> (r, w'))"

definition run :: "env \<Rightarrow> nat \<Rightarrow> unit prog" where
  "run env fuel =
     andthen (say Connecting) (\<lambda>_.
     try_finally (run_handlers (with_KELSerial env (session env fuel))) (cleanup env))"


fun is_clock_read :: "event \<Rightarrow> bool" where
  "is_clock_read (Op ClockRead oc) = True"
| "is_clock_read ev = False"

text \<open>An operation that raised, and one that was interrupted by an exception outside \<open>Exception\<close>.\<close>

fun raised :: "event \<Rightarrow> bool" where
  "raised (Op c (Raises x)) = True"
| "raised ev = False"

fun interrupted :: "event \<Rightarrow> bool" where
  "interrupted (Op c (Raises KeyboardInterrupt)) = True"
| "interrupted (Op c (Raises (SystemExit n))) = True"
| "interrupted ev = False"

text \<open>A world in which nothing has happened yet, around a given scheduler.\<close>

definition world0 :: "scheduler \<Rightarrow> world" where
  "world0 s = \<lparr>obj = s, ops = 0, trace = []\<rparr>"

text \<open>The device commands of a history, without outcomes and messages.\<close>

fun commands :: "event list \<Rightarrow> command list" where
  "commands [] = []"
| "commands (Op c oc # evs) = c # commands evs"
| "commands (Say m # evs) = commands evs"

text \<open>
  A statement keeps the handle when it never assigns \<open>self.load\<close>. This predicate is used
  in proofs only.
\<close>

definition keeps_handle :: "'a prog \<Rightarrow> bool" where
  "keeps_handle m = (\<forall>w. load (obj (snd (m w))) = load (obj w))"

text \<open>
  A statement raises last when an operation that raises is the last event the statement
  adds to the history and its exception is the outcome of the statement. This predicate is
  used in proofs only.
\<close>

definition raises_last :: "'a prog \<Rightarrow> bool" where
  "raises_last m =
     (\<forall>w. \<exists>new. trace (snd (m w)) = trace w @ new \<and>
        (filter raised new = [] \<or>
         (\<exists>init c x. new = init @ [Op c (Raises x)] \<and> filter raised init = [] \<and>
            fst (m w) = Exn x)))"

section \<open>Concrete inputs\<close>

text \<open>A row of the schedule file with both columns filled.\<close>

definition mk_row :: "string \<Rightarrow> string \<Rightarrow> row" where
  "mk_row t c = [''time_seconds'' \<mapsto> Some t, ''current_amps'' \<mapsto> Some c]"

definition docstring_scheduler :: scheduler where
  "docstring_scheduler = fresh\<lparr>schedule := example_points\<rparr>"

text \<open>A world in which the load is connected and the control loop is running.\<close>

definition connected_world :: world where
  "connected_world =
     world0 (docstring_scheduler\<lparr>load := Some (KEL ''/dev/ttyACM0''), running := True\<rparr>)"

text \<open>
  Environments. In a run from \<open>world0\<close> the operations are numbered: 0 connect, 1 model,
  2 status, 3 current to zero, 4 input on, 5 log file header, 6 clock (start), and in the
  first pass 7 clock, 8 current, 9 voltage, 10 current, 11 power, 12 append, 13 clock,
  14 sleep.
\<close>

definition env_unplugged :: env where
  "env_unplugged i =
     (if i = 9 \<or> 11 \<le> i then Raises (Exc SerialException) else Returns (real i))"

definition env_sink_fails :: env where
  "env_sink_fails i = (if i = 12 then Raises (Exc OSError) else Returns (real i))"

definition env_interrupt :: env where
  "env_interrupt i = (if i = 14 then Raises KeyboardInterrupt else Returns (real i))"


definition env_zero_fails :: env where
  "env_zero_fails i = (if i = 0 then Raises (Exc SerialException) else Returns 0)"

definition env_off_fails :: env where
  "env_off_fails i = (if i = 1 then Raises (Exc SerialException) else Returns 0)"

definition env_append_fails :: env where
  "env_append_fails i = (if i = 5 then Raises (Exc OSError) else Returns (real i))"


text \<open>
  \<open>Ctrl+C\<close> during the first sleep, with a serial port that is closed once the \<open>with\<close>
  block has released it (operation 15): every later command raises.
\<close>

definition env_port_closed :: env where
  "env_port_closed i =
     (if i = 14 then Raises KeyboardInterrupt
      else if 16 \<le> i then Raises (Exc SerialException) else Returns (real i))"



section \<open>Schedule lookup: properties\<close>

lemma scan_sorted:
  "sorted (map time ps) \<Longrightarrow>
   scan e ps cur = (if filter (\<lambda>p. time p \<le> e) ps = [] then cur
                    else current (last (filter (\<lambda>p. time p \<le> e) ps)))"
proof (induction ps arbitrary: cur)
  case Nil
  then show ?case by simp
next
  case (Cons p ps)
  show ?case
  proof (cases "time p \<le> e")
    case True
    with Cons show ?thesis by simp
  next
    case False
    with Cons.prems have "\<forall>q\<in>set ps. \<not> time q \<le> e" by auto
    then have "filter (\<lambda>p. time p \<le> e) ps = []" by (simp add: filter_empty_conv)
    with False show ?thesis by simp
  qed
qed

lemma get_scheduled_current_sorted:
  assumes "sorted (map time (schedule self))"
  shows "get_scheduled_current self e = Inr (CurrentAt_spec (schedule self) e)"
proof (cases "schedule self")
  case Nil
  then show ?thesis by (simp add: get_scheduled_current_def CurrentAt_spec_def)
next
  case (Cons p ps)
  have "scan e (schedule self) (current p) =
        (if filter (\<lambda>p. time p \<le> e) (schedule self) = [] then current p
         else current (last (filter (\<lambda>p. time p \<le> e) (schedule self))))"
    using assms by (rule scan_sorted)
  with Cons show ?thesis
    by (simp add: get_scheduled_current_def CurrentAt_spec_def index_py_def Let_def)
qed

lemma docstring_schedule: "schedule docstring_scheduler = example_points"
  by (simp add: docstring_scheduler_def)

lemma docstring_lookups:
  "get_scheduled_current docstring_scheduler 0 = Inr 1"
  "get_scheduled_current docstring_scheduler (299999 / 1000) = Inr 1"
  "get_scheduled_current docstring_scheduler 300 = Inr 2"
  "get_scheduled_current docstring_scheduler (10 ^ 9) = Inr (1 / 2)"
  by (simp_all add: get_scheduled_current_def index_py_def docstring_schedule example_points_def)

text \<open>
  C2. On a schedule sorted by offset, \<open>get_scheduled_current\<close> returns the setpoint of the
  last point whose offset is at most the elapsed time, the first point's setpoint when no
  offset has been reached, and \<open>0\<close> for the empty schedule (the three cases of
  \<open>CurrentAt_spec\<close>). For the points \<open>[(0,1.0),(300,2.0),(600,1.5),(900,0.5)]\<close> the lookups
  at \<open>0\<close>, \<open>299.999\<close>, \<open>300\<close> and \<open>1e9\<close> give \<open>1.0\<close>, \<open>1.0\<close>, \<open>2.0\<close> and \<open>0.5\<close>.
\<close>

theorem get_scheduled_current_lookup:
  "(sorted (map time (schedule self)) \<longrightarrow>
      get_scheduled_current self elapsed = Inr (CurrentAt_spec (schedule self) elapsed)) \<and>
   (schedule self = [] \<longrightarrow> get_scheduled_current self elapsed = Inr 0) \<and>
   get_scheduled_current docstring_scheduler 0 = Inr 1 \<and>
   get_scheduled_current docstring_scheduler (299999 / 1000) = Inr 1 \<and>
   get_scheduled_current docstring_scheduler 300 = Inr 2 \<and>
   get_scheduled_current docstring_scheduler (10 ^ 9) = Inr (1 / 2)"
proof -
  have "schedule self = [] \<longrightarrow> get_scheduled_current self elapsed = Inr 0"
    by (simp add: get_scheduled_current_def)
  then show ?thesis
    using get_scheduled_current_sorted [of self elapsed] docstring_lookups by blast
qed

theorem get_scheduled_current_lookup_witness:
  "sorted (map time (schedule docstring_scheduler)) \<and>
   get_scheduled_current docstring_scheduler 450 = Inr (CurrentAt_spec example_points 450) \<and>
   CurrentAt_spec example_points 450 = 2 \<and>
   schedule fresh = [] \<and> get_scheduled_current fresh 450 = Inr 0"
proof -
  have s: "sorted (map time (schedule docstring_scheduler))"
    by (simp add: docstring_schedule example_points_def)
  have c: "CurrentAt_spec example_points 450 = 2"
    by (simp add: CurrentAt_spec_def example_points_def)
  have f: "schedule fresh = []"
    by (simp add: fresh_def init_def)
  from get_scheduled_current_lookup [of docstring_scheduler 450] s
  have d: "get_scheduled_current docstring_scheduler 450 =
           Inr (CurrentAt_spec (schedule docstring_scheduler) 450)"
    by blast
  from get_scheduled_current_lookup [of fresh 450] f
  have e: "get_scheduled_current fresh 450 = Inr 0"
    by blast
  show ?thesis
    using d e s c f by (simp add: docstring_schedule)
qed

text \<open>
  C9. \<open>get_scheduled_current\<close> is total: for every schedule and every elapsed time,
  negative ones included, it returns a value and raises nothing; on a non-empty schedule and
  an elapsed time below every offset it returns the first point's setpoint.
\<close>

theorem get_scheduled_current_total:
  "(\<exists>v. get_scheduled_current self elapsed = Inr v) \<and>
   (schedule self \<noteq> [] \<and> (\<forall>p\<in>set (schedule self). elapsed < time p) \<longrightarrow>
      get_scheduled_current self elapsed = Inr (current (hd (schedule self))))"
  by (cases "schedule self") (simp_all add: get_scheduled_current_def index_py_def)

theorem get_scheduled_current_total_witness:
  "schedule docstring_scheduler \<noteq> [] \<and>
   list_all (\<lambda>p. -5 < time p) (schedule docstring_scheduler) \<and>
   get_scheduled_current docstring_scheduler (-5) = Inr 1"
proof -
  have a: "schedule docstring_scheduler \<noteq> []"
    by (simp add: docstring_schedule example_points_def)
  have b: "\<forall>p\<in>set (schedule docstring_scheduler). -5 < time p"
    by (simp add: docstring_schedule example_points_def)
  have c: "current (hd (schedule docstring_scheduler)) = 1"
    by (simp add: docstring_schedule example_points_def)
  from get_scheduled_current_total [of docstring_scheduler "-5"] a b c
  have "get_scheduled_current docstring_scheduler (-5) = Inr 1"
    by simp
  with a b show ?thesis by (simp add: list_all_iff)
qed

section \<open>Loading the schedule: properties\<close>

lemma float_dec_examples:
  "float_dec ''0'' = Some 0" "float_dec ''1.0'' = Some 1" "float_dec ''2.0'' = Some 2"
  "float_dec ''-5'' = Some (-5)" "float_dec ''-1.0'' = Some (-1)"
  "float_dec ''300'' = Some 300" "float_dec ''abc'' = None"
  by (simp_all add: float_dec_def unsigned_dec_def digit_val_def)

lemma read_rows_append:
  "read_rows pf rows sched = (fst (read_rows pf rows []), sched @ snd (read_rows pf rows []))"
proof (induction rows arbitrary: sched)
  case Nil
  then show ?case by simp
next
  case (Cons r rows)
  show ?case
    using Cons.IH [of "sched @ [x]" for x] Cons.IH [of "[x]" for x]
    by (simp split: sum.splits)
qed

lemma read_rows_ok_iff:
  "fst (read_rows pf rows sched) = None \<longleftrightarrow>
   (\<forall>r\<in>set rows. \<exists>t c. float_of_field pf r ''time_seconds'' = Inr t \<and>
                         float_of_field pf r ''current_amps'' = Inr c)"
  by (induction rows arbitrary: sched) (auto split: sum.splits)

lemma sort_key_resort:
  fixes f :: "'a \<Rightarrow> 'k::linorder"
  shows "sort_key f (sort_key f xs @ ys) = sort_key f (xs @ ys)"
proof (rule properties_for_sort_key)
  show "mset (sort_key f (xs @ ys)) = mset (sort_key f xs @ ys)" by simp
next
  fix k
  have "filter (\<lambda>x. f x = f k) (sort_key f (xs @ ys)) =
        filter (\<lambda>x. f x = f k) (sort_key f xs @ ys)"
    by (simp add: sort_key_stable)
  then show "filter (\<lambda>x. f k = f x) (sort_key f (xs @ ys)) =
             filter (\<lambda>x. f k = f x) (sort_key f xs @ ys)"
    by (simp add: eq_commute [of "f k"])
next
  show "sorted (map f (sort_key f (xs @ ys)))" by simp
qed

lemma load_schedule_ok:
  assumes "read_rows pf rows [] = (None, ps)"
  shows "load_schedule pf (Inr rows) self =
           (None, self\<lparr>schedule := sort_schedule (schedule self @ ps)\<rparr>)"
proof -
  have "read_rows pf rows (schedule self) = (None, schedule self @ ps)"
    using read_rows_append [of pf rows "schedule self"] assms by simp
  then show ?thesis by (simp add: load_schedule_def)
qed

lemma read_rows_examples:
  "read_rows float_dec [mk_row ''0'' ''1.0''] [] = (None, [\<lparr>time = 0, current = 1\<rparr>])"
  "read_rows float_dec [mk_row ''300'' ''2.0''] [] = (None, [\<lparr>time = 300, current = 2\<rparr>])"
  "read_rows float_dec [mk_row ''0'' ''1.0'', mk_row ''0'' ''2.0''] [] =
     (None, [\<lparr>time = 0, current = 1\<rparr>, \<lparr>time = 0, current = 2\<rparr>])"
  "read_rows float_dec [mk_row ''-5'' ''-1.0''] [] = (None, [\<lparr>time = -5, current = -1\<rparr>])"
  by (simp_all add: float_of_field_def mk_row_def float_dec_examples)

lemma fresh_schedule: "schedule fresh = []"
  by (simp add: fresh_def init_def)

text \<open>
  C5, as the code has it. \<open>load_schedule\<close> checks only that every row has both fields and
  that each of them reads as a number: loading succeeds exactly when that holds for every
  row, whatever the signs of the numbers; a missing field or a malformed numeric value
  makes it fail.
\<close>

theorem load_schedule_accepts_iff:
  "fst (load_schedule pf (Inr rows) self) = None \<longleftrightarrow>
   (\<forall>r\<in>set rows. \<exists>t c. float_of_field pf r ''time_seconds'' = Inr t \<and>
                         float_of_field pf r ''current_amps'' = Inr c)"
proof -
  have "fst (load_schedule pf (Inr rows) self) = None \<longleftrightarrow>
        fst (read_rows pf rows (schedule self)) = None"
    by (simp add: load_schedule_def split: prod.splits option.splits)
  then show ?thesis by (simp add: read_rows_ok_iff)
qed

theorem load_schedule_accepts_iff_witness:
  "float_of_field float_dec (mk_row ''-5'' ''1.0'') ''time_seconds'' = Inr (-5) \<and>
   float_of_field float_dec (mk_row ''-5'' ''1.0'') ''current_amps'' = Inr 1 \<and>
   float_of_field float_dec (mk_row ''300'' ''-1.0'') ''time_seconds'' = Inr 300 \<and>
   float_of_field float_dec (mk_row ''300'' ''-1.0'') ''current_amps'' = Inr (-1) \<and>
   fst (load_schedule float_dec (Inr [mk_row ''-5'' ''1.0'', mk_row ''300'' ''-1.0'']) fresh) = None \<and>
   float_of_field float_dec (mk_row ''abc'' ''1.0'') ''time_seconds'' = Inl (Exc ValueError) \<and>
   fst (load_schedule float_dec (Inr [mk_row ''abc'' ''1.0'']) fresh) \<noteq> None"
proof -
  have f: "float_of_field float_dec (mk_row ''-5'' ''1.0'') ''time_seconds'' = Inr (-5)"
    "float_of_field float_dec (mk_row ''-5'' ''1.0'') ''current_amps'' = Inr 1"
    "float_of_field float_dec (mk_row ''300'' ''-1.0'') ''time_seconds'' = Inr 300"
    "float_of_field float_dec (mk_row ''300'' ''-1.0'') ''current_amps'' = Inr (-1)"
    "float_of_field float_dec (mk_row ''abc'' ''1.0'') ''time_seconds'' = Inl (Exc ValueError)"
    by (simp_all add: float_of_field_def mk_row_def float_dec_examples)
  have a: "\<forall>r\<in>set [mk_row ''-5'' ''1.0'', mk_row ''300'' ''-1.0''].
      \<exists>t c. float_of_field float_dec r ''time_seconds'' = Inr t \<and>
            float_of_field float_dec r ''current_amps'' = Inr c"
    by (simp add: f)
  have b: "\<not> (\<forall>r\<in>set [mk_row ''abc'' ''1.0''].
      \<exists>t c. float_of_field float_dec r ''time_seconds'' = Inr t \<and>
            float_of_field float_dec r ''current_amps'' = Inr c)"
    by (simp add: f)
  from load_schedule_accepts_iff
        [of float_dec "[mk_row ''-5'' ''1.0'', mk_row ''300'' ''-1.0'']" fresh] a
  have c: "fst (load_schedule float_dec (Inr [mk_row ''-5'' ''1.0'', mk_row ''300'' ''-1.0'']) fresh) = None"
    by blast
  from load_schedule_accepts_iff [of float_dec "[mk_row ''abc'' ''1.0'']" fresh] b
  have d: "fst (load_schedule float_dec (Inr [mk_row ''abc'' ''1.0'']) fresh) \<noteq> None"
    by blast
  from f c d show ?thesis by blast
qed

text \<open>
  C5 as stated fails: a row with a negative offset and a negative setpoint is loaded
  without any error.
\<close>

theorem load_schedule_negative_accepted:
  "load_schedule float_dec (Inr [mk_row ''-5'' ''-1.0'']) fresh =
     (None, fresh\<lparr>schedule := [\<lparr>time = -5, current = -1\<rparr>]\<rparr>)"
  using load_schedule_ok [OF read_rows_examples(4), of fresh]
  by (simp add: fresh_schedule sort_schedule_def)

lemma read_rows_unsorted:
  "read_rows float_dec [mk_row ''300'' ''2.0'', mk_row ''0'' ''1.0'', mk_row ''0'' ''2.0''] [] =
     (None, [\<lparr>time = 300, current = 2\<rparr>, \<lparr>time = 0, current = 1\<rparr>, \<lparr>time = 0, current = 2\<rparr>])"
  by (simp add: float_of_field_def mk_row_def float_dec_examples)

lemma load_schedule_unsorted:
  "load_schedule float_dec
     (Inr [mk_row ''300'' ''2.0'', mk_row ''0'' ''1.0'', mk_row ''0'' ''2.0'']) fresh =
     (None, fresh\<lparr>schedule := [\<lparr>time = 0, current = 1\<rparr>, \<lparr>time = 0, current = 2\<rparr>,
                                \<lparr>time = 300, current = 2\<rparr>]\<rparr>)"
  using load_schedule_ok [OF read_rows_unsorted, of fresh]
  by (simp add: fresh_schedule sort_schedule_def)

lemma load_schedule_tie:
  "load_schedule float_dec (Inr [mk_row ''0'' ''1.0'', mk_row ''0'' ''2.0'']) fresh =
     (None, fresh\<lparr>schedule := [\<lparr>time = 0, current = 1\<rparr>, \<lparr>time = 0, current = 2\<rparr>]\<rparr>)"
  using load_schedule_ok [OF read_rows_examples(3), of fresh]
  by (simp add: fresh_schedule sort_schedule_def)

text \<open>
  C6. Whenever \<open>load_schedule\<close> succeeds, the schedule it leaves is ordered by offset and
  holds exactly the points that were there before followed by the points of the rows, and
  points with the same offset keep the order they had in that list: the sort is stable.
  Loading the rows \<open>(0,1.0)\<close>, \<open>(0,2.0)\<close> therefore keeps them in this order, and the lookup
  at \<open>0\<close> gives \<open>2.0\<close>: the last point at a duplicated offset wins.
\<close>

theorem load_schedule_sorts_stably:
  "(load_schedule pf (Inr rows) self = (None, self') \<longrightarrow>
      (\<exists>ps. read_rows pf rows [] = (None, ps) \<and>
            sorted (map time (schedule self')) \<and>
            mset (schedule self') = mset (schedule self @ ps) \<and>
            (\<forall>k. filter (\<lambda>p. time p = k) (schedule self') =
                 filter (\<lambda>p. time p = k) (schedule self @ ps)))) \<and>
   load_schedule float_dec (Inr [mk_row ''0'' ''1.0'', mk_row ''0'' ''2.0'']) fresh =
     (None, fresh\<lparr>schedule := [\<lparr>time = 0, current = 1\<rparr>, \<lparr>time = 0, current = 2\<rparr>]\<rparr>) \<and>
   get_scheduled_current
     (snd (load_schedule float_dec (Inr [mk_row ''0'' ''1.0'', mk_row ''0'' ''2.0'']) fresh)) 0 =
     Inr 2"
proof -
  have gen: "\<exists>ps. read_rows pf rows [] = (None, ps) \<and>
            sorted (map time (schedule self')) \<and>
            mset (schedule self') = mset (schedule self @ ps) \<and>
            (\<forall>k. filter (\<lambda>p. time p = k) (schedule self') =
                 filter (\<lambda>p. time p = k) (schedule self @ ps))"
    if l: "load_schedule pf (Inr rows) self = (None, self')"
  proof -
    obtain e sched where rr: "read_rows pf rows (schedule self) = (e, sched)"
      by (cases "read_rows pf rows (schedule self)")
    from l rr have e: "e = None" and s': "self' = self\<lparr>schedule := sort_schedule sched\<rparr>"
      by (auto simp: load_schedule_def split: option.splits)
    from rr read_rows_append [of pf rows "schedule self"]
    have f: "fst (read_rows pf rows []) = e"
      and s: "sched = schedule self @ snd (read_rows pf rows [])"
      by auto
    have "read_rows pf rows [] = (None, snd (read_rows pf rows []))"
      using f e by (metis prod.collapse)
    moreover have "sorted (map time (schedule self'))"
      by (simp add: s' sort_schedule_def)
    moreover have "mset (schedule self') = mset (schedule self @ snd (read_rows pf rows []))"
      by (simp add: s' s sort_schedule_def)
    moreover have "\<forall>k. filter (\<lambda>p. time p = k) (schedule self') =
                 filter (\<lambda>p. time p = k) (schedule self @ snd (read_rows pf rows []))"
      by (simp add: s' s sort_schedule_def sort_key_stable)
    ultimately show ?thesis by blast
  qed
  have g: "get_scheduled_current
     (snd (load_schedule float_dec (Inr [mk_row ''0'' ''1.0'', mk_row ''0'' ''2.0'']) fresh)) 0 =
     Inr 2"
    by (simp add: load_schedule_tie get_scheduled_current_def index_py_def)
  from gen load_schedule_tie g show ?thesis by blast
qed

theorem load_schedule_sorts_stably_witness:
  "load_schedule float_dec
     (Inr [mk_row ''300'' ''2.0'', mk_row ''0'' ''1.0'', mk_row ''0'' ''2.0'']) fresh =
     (None, fresh\<lparr>schedule := [\<lparr>time = 0, current = 1\<rparr>, \<lparr>time = 0, current = 2\<rparr>,
                                \<lparr>time = 300, current = 2\<rparr>]\<rparr>) \<and>
   sorted (map time [\<lparr>time = 0, current = 1\<rparr>, \<lparr>time = 0, current = 2\<rparr>,
                     \<lparr>time = 300, current = 2::real\<rparr>]) \<and>
   filter (\<lambda>p. time p = 0)
     [\<lparr>time = 0, current = 1\<rparr>, \<lparr>time = 0, current = 2\<rparr>, \<lparr>time = 300, current = 2\<rparr>] =
   filter (\<lambda>p. time p = 0)
     [\<lparr>time = 300, current = 2\<rparr>, \<lparr>time = 0, current = 1\<rparr>, \<lparr>time = 0, current = 2::real\<rparr>] \<and>
   get_scheduled_current
     (fresh\<lparr>schedule := [\<lparr>time = 0, current = 1\<rparr>, \<lparr>time = 0, current = 2\<rparr>,
                         \<lparr>time = 300, current = 2\<rparr>]\<rparr>) 0 = Inr 2"
proof -
  let ?s = "[\<lparr>time = 0, current = 1\<rparr>, \<lparr>time = 0, current = 2\<rparr>, \<lparr>time = 300, current = 2::real\<rparr>]"
  from load_schedule_sorts_stably
    [of float_dec "[mk_row ''300'' ''2.0'', mk_row ''0'' ''1.0'', mk_row ''0'' ''2.0'']"
        fresh "fresh\<lparr>schedule := ?s\<rparr>"]
    load_schedule_unsorted
  obtain ps where
    "read_rows float_dec [mk_row ''300'' ''2.0'', mk_row ''0'' ''1.0'', mk_row ''0'' ''2.0''] [] =
       (None, ps)"
    and a: "sorted (map time (schedule (fresh\<lparr>schedule := ?s\<rparr>)))"
    and b: "\<forall>k. filter (\<lambda>p. time p = k) (schedule (fresh\<lparr>schedule := ?s\<rparr>)) =
                filter (\<lambda>p. time p = k) (schedule fresh @ ps)"
    by blast
  with read_rows_unsorted
  have ps: "ps = [\<lparr>time = 300, current = 2\<rparr>, \<lparr>time = 0, current = 1\<rparr>, \<lparr>time = 0, current = 2\<rparr>]"
    by simp
  from b have "filter (\<lambda>p. time p = 0) (schedule (fresh\<lparr>schedule := ?s\<rparr>)) =
                filter (\<lambda>p. time p = 0) (schedule fresh @ ps)"
    by (rule spec)
  then have c: "filter (\<lambda>p. time p = 0) ?s =
     filter (\<lambda>p. time p = 0)
       [\<lparr>time = 300, current = 2\<rparr>, \<lparr>time = 0, current = 1\<rparr>, \<lparr>time = 0, current = 2::real\<rparr>]"
    unfolding ps fresh_schedule by simp
  have d: "sorted (map time ?s)" using a by simp
  have g: "get_scheduled_current (fresh\<lparr>schedule := ?s\<rparr>) 0 = Inr 2"
    by (simp add: get_scheduled_current_def index_py_def)
  from load_schedule_unsorted c d g show ?thesis by blast
qed

text \<open>
  C10. \<open>load_schedule\<close> does not reset the schedule: a call appends the points of its rows
  to the points already there and sorts the whole list, so after two loads the schedule is
  the sorted concatenation of what was there and both inputs, not the second input alone.
\<close>

theorem load_schedule_accumulates:
  assumes "read_rows pf rows1 [] = (None, ps1)" and "read_rows pf rows2 [] = (None, ps2)"
  shows "load_schedule pf (Inr rows1) self =
           (None, self\<lparr>schedule := sort_schedule (schedule self @ ps1)\<rparr>) \<and>
         load_schedule pf (Inr rows2) (snd (load_schedule pf (Inr rows1) self)) =
           (None, self\<lparr>schedule := sort_schedule (schedule self @ ps1 @ ps2)\<rparr>)"
  by (simp add: load_schedule_ok [OF assms(1)] load_schedule_ok [OF assms(2)]
      sort_schedule_def sort_key_resort)

theorem load_schedule_accumulates_witness:
  "read_rows float_dec [mk_row ''300'' ''2.0''] [] = (None, [\<lparr>time = 300, current = 2\<rparr>]) \<and>
   read_rows float_dec [mk_row ''0'' ''1.0''] [] = (None, [\<lparr>time = 0, current = 1\<rparr>]) \<and>
   load_schedule float_dec (Inr [mk_row ''0'' ''1.0''])
     (snd (load_schedule float_dec (Inr [mk_row ''300'' ''2.0'']) fresh)) =
     (None, fresh\<lparr>schedule := [\<lparr>time = 0, current = 1\<rparr>, \<lparr>time = 300, current = 2\<rparr>]\<rparr>)"
proof -
  have e: "sort_schedule (schedule fresh @ [\<lparr>time = 300, current = 2\<rparr>] @ [\<lparr>time = 0, current = 1\<rparr>]) =
           [\<lparr>time = 0, current = 1\<rparr>, \<lparr>time = 300, current = 2\<rparr>]"
    by (simp add: fresh_schedule sort_schedule_def)
  from load_schedule_accumulates [OF read_rows_examples(2) read_rows_examples(1), of fresh]
  have "load_schedule float_dec (Inr [mk_row ''0'' ''1.0''])
     (snd (load_schedule float_dec (Inr [mk_row ''300'' ''2.0'']) fresh)) =
     (None, fresh\<lparr>schedule := sort_schedule
        (schedule fresh @ [\<lparr>time = 300, current = 2\<rparr>] @ [\<lparr>time = 0, current = 1\<rparr>])\<rparr>)"
    by (rule conjunct2)
  then have "load_schedule float_dec (Inr [mk_row ''0'' ''1.0''])
     (snd (load_schedule float_dec (Inr [mk_row ''300'' ''2.0'']) fresh)) =
     (None, fresh\<lparr>schedule := [\<lparr>time = 0, current = 1\<rparr>, \<lparr>time = 300, current = 2\<rparr>]\<rparr>)"
    unfolding e .
  with read_rows_examples(1) read_rows_examples(2) show ?thesis by blast
qed

section \<open>The handle is never reassigned inside the session\<close>

lemma keeps_handleD: "keeps_handle m \<Longrightarrow> m w = (r, w') \<Longrightarrow> load (obj w') = load (obj w)"
  by (metis keeps_handle_def snd_conv)

lemma keeps_handle_return: "keeps_handle (return a)"
  by (simp add: keeps_handle_def return_def)

lemma keeps_handle_lift: "keeps_handle (lift r)"
  by (simp add: keeps_handle_def lift_def split: sum.splits)

lemma keeps_handle_perform: "keeps_handle (perform env c)"
  by (simp add: keeps_handle_def perform_def Let_def split: outcome.splits)

lemma keeps_handle_say: "keeps_handle (say m)"
  by (simp add: keeps_handle_def say_def)

lemma keeps_handle_set_running: "keeps_handle (set_running b)"
  by (simp add: keeps_handle_def set_running_def)

lemma keeps_handle_andthen:
  assumes "keeps_handle m" and "\<And>a. keeps_handle (f a)"
  shows "keeps_handle (andthen m f)"
  unfolding keeps_handle_def
proof
  fix w
  obtain r w1 where m: "m w = (r, w1)" by (cases "m w")
  have l1: "load (obj w1) = load (obj w)" using assms(1) m by (rule keeps_handleD)
  show "load (obj (snd (andthen m f w))) = load (obj w)"
  proof (cases r)
    case (Ret a)
    obtain r2 w2 where f: "f a w1 = (r2, w2)" by (cases "f a w1")
    have "load (obj w2) = load (obj w1)" using assms(2) f by (rule keeps_handleD)
    with m Ret f l1 show ?thesis by (simp add: andthen_def)
  next
    case (Exn x)
    with m l1 show ?thesis by (simp add: andthen_def)
  next
    case Pending
    with m l1 show ?thesis by (simp add: andthen_def)
  qed
qed

lemmas keeps_handle_intros =
  keeps_handle_andthen keeps_handle_return keeps_handle_lift keeps_handle_perform
  keeps_handle_say keeps_handle_set_running

lemma keeps_handle_tick: "keeps_handle (tick env start_time next_log_time)"
  unfolding keeps_handle_def
proof
  fix w :: world
  let ?m = "andthen (perform env ClockRead) (\<lambda>current_time.
     andthen (lift (get_scheduled_current (obj w) (current_time - start_time))) (\<lambda>scheduled_current.
     andthen (perform env (SetCurrent scheduled_current)) (\<lambda>_.
     andthen
       (if current_time \<ge> next_log_time then
          andthen (perform env MeasureVoltage) (\<lambda>voltage.
          andthen (perform env MeasureCurrent) (\<lambda>cur.
          andthen (perform env MeasurePower) (\<lambda>power.
          andthen (perform env (Append (current_time - start_time) voltage cur power)) (\<lambda>_.
          andthen (say (StatusLine (current_time - start_time) voltage cur power)) (\<lambda>_.
          return (current_time + logging_interval (obj w)))))))
        else return next_log_time) (\<lambda>next_log_time'.
     andthen (perform env ClockRead) (\<lambda>t.
     andthen (perform env (Sleep (max 0 (next_log_time' - t)))) (\<lambda>_.
     return next_log_time'))))))"
  have "keeps_handle ?m"
    by (intro keeps_handle_intros) (simp_all add: keeps_handle_intros)
  then have "load (obj (snd (?m w))) = load (obj w)" by (simp add: keeps_handle_def)
  then show "load (obj (snd (tick env start_time next_log_time w))) = load (obj w)"
    by (simp add: tick_def)
qed

lemma keeps_handle_loop: "keeps_handle (loop env start_time fuel next_log_time)"
proof (induction fuel arbitrary: next_log_time)
  case 0
  show ?case by (simp add: keeps_handle_def)
next
  case (Suc fuel)
  show ?case
    unfolding keeps_handle_def
  proof
    fix w
    obtain r w1 where t: "tick env start_time next_log_time w = (r, w1)"
      by (cases "tick env start_time next_log_time w")
    have l1: "load (obj w1) = load (obj w)" using keeps_handle_tick t by (rule keeps_handleD)
    show "load (obj (snd (loop env start_time (Suc fuel) next_log_time w))) = load (obj w)"
    proof (cases r)
      case (Ret nx)
      have "load (obj (snd (loop env start_time fuel nx w1))) = load (obj w1)"
        using Suc.IH [of nx] by (simp add: keeps_handle_def)
      with t Ret l1 show ?thesis by simp
    next
      case (Exn x)
      with t l1 show ?thesis by simp
    next
      case Pending
      with t l1 show ?thesis by simp
    qed
  qed
qed

lemma keeps_handle_session: "keeps_handle (session env fuel)"
  unfolding session_def initialize_log_file_def
  by (intro keeps_handle_intros keeps_handle_loop)

section \<open>An exception ends the session at the operation that raised it\<close>

lemma raises_lastD:
  assumes "raises_last m" and "m w = (r, w')"
  shows "\<exists>new. trace w' = trace w @ new \<and>
        (filter raised new = [] \<or>
         (\<exists>init c x. new = init @ [Op c (Raises x)] \<and> filter raised init = [] \<and> r = Exn x))"
  using assms unfolding raises_last_def by (metis fst_conv snd_conv)

lemma raises_last_return: "raises_last (return a)"
  by (simp add: raises_last_def return_def)

lemma raises_last_lift: "raises_last (lift r)"
  by (simp add: raises_last_def lift_def split: sum.splits)

lemma raises_last_say: "raises_last (say m)"
  by (simp add: raises_last_def say_def)

lemma raises_last_set_running: "raises_last (set_running b)"
  by (simp add: raises_last_def set_running_def)

lemma raises_last_perform: "raises_last (perform env c)"
  unfolding raises_last_def
proof
  fix w
  show "\<exists>new. trace (snd (perform env c w)) = trace w @ new \<and>
        (filter raised new = [] \<or>
         (\<exists>init c' x. new = init @ [Op c' (Raises x)] \<and> filter raised init = [] \<and>
            fst (perform env c w) = Exn x))"
  proof (cases "env (ops w)")
    case (Returns v)
    then show ?thesis
      by (intro exI [of _ "[Op c (Returns v)]"]) (simp add: perform_def Let_def)
  next
    case (Raises x)
    then show ?thesis
      by (intro exI [of _ "[Op c (Raises x)]"]) (simp add: perform_def Let_def)
  qed
qed

lemma raises_last_andthen:
  assumes "raises_last m" and "\<And>a. raises_last (f a)"
  shows "raises_last (andthen m f)"
  unfolding raises_last_def
proof
  fix w
  obtain r w1 where m: "m w = (r, w1)" by (cases "m w")
  from raises_lastD [OF assms(1) m]
  obtain new1 where t1: "trace w1 = trace w @ new1"
    and c1: "filter raised new1 = [] \<or>
         (\<exists>init c x. new1 = init @ [Op c (Raises x)] \<and> filter raised init = [] \<and> r = Exn x)"
    by blast
  show "\<exists>new. trace (snd (andthen m f w)) = trace w @ new \<and>
        (filter raised new = [] \<or>
         (\<exists>init c x. new = init @ [Op c (Raises x)] \<and> filter raised init = [] \<and>
            fst (andthen m f w) = Exn x))"
  proof (cases r)
    case (Ret a)
    obtain r2 w2 where f: "f a w1 = (r2, w2)" by (cases "f a w1")
    from raises_lastD [OF assms(2) f]
    obtain new2 where t2: "trace w2 = trace w1 @ new2"
      and c2: "filter raised new2 = [] \<or>
         (\<exists>init c x. new2 = init @ [Op c (Raises x)] \<and> filter raised init = [] \<and> r2 = Exn x)"
      by blast
    from c1 Ret have q1: "filter raised new1 = []" by auto
    have e: "andthen m f w = (r2, w2)" using m Ret f by (simp add: andthen_def)
    from c2 show ?thesis
    proof
      assume "filter raised new2 = []"
      with q1 t1 t2 e show ?thesis
        by (intro exI [of _ "new1 @ new2"]) simp
    next
      assume "\<exists>init c x. new2 = init @ [Op c (Raises x)] \<and> filter raised init = [] \<and> r2 = Exn x"
      then obtain init c x where "new2 = init @ [Op c (Raises x)]" "filter raised init = []" "r2 = Exn x"
        by blast
      with q1 t1 t2 e show ?thesis
        by (intro exI [of _ "new1 @ new2"]) (auto intro: exI [of _ "new1 @ init"])
    qed
  next
    case (Exn x)
    then have "snd (andthen m f w) = w1" "fst (andthen m f w) = Exn x"
      using m by (simp_all add: andthen_def)
    with t1 c1 Exn show ?thesis by (intro exI [of _ new1]) auto
  next
    case Pending
    then have "snd (andthen m f w) = w1" using m by (simp add: andthen_def)
    with t1 c1 Pending show ?thesis by (intro exI [of _ new1]) auto
  qed
qed

lemmas raises_last_intros =
  raises_last_andthen raises_last_return raises_last_lift raises_last_perform
  raises_last_say raises_last_set_running

lemma raises_last_tick: "raises_last (tick env start_time next_log_time)"
proof -
  have "raises_last (\<lambda>w. tick env start_time next_log_time w)"
    unfolding raises_last_def
  proof
    fix w :: world
    let ?m = "andthen (perform env ClockRead) (\<lambda>current_time.
     andthen (lift (get_scheduled_current (obj w) (current_time - start_time))) (\<lambda>scheduled_current.
     andthen (perform env (SetCurrent scheduled_current)) (\<lambda>_.
     andthen
       (if current_time \<ge> next_log_time then
          andthen (perform env MeasureVoltage) (\<lambda>voltage.
          andthen (perform env MeasureCurrent) (\<lambda>cur.
          andthen (perform env MeasurePower) (\<lambda>power.
          andthen (perform env (Append (current_time - start_time) voltage cur power)) (\<lambda>_.
          andthen (say (StatusLine (current_time - start_time) voltage cur power)) (\<lambda>_.
          return (current_time + logging_interval (obj w)))))))
        else return next_log_time) (\<lambda>next_log_time'.
     andthen (perform env ClockRead) (\<lambda>t.
     andthen (perform env (Sleep (max 0 (next_log_time' - t)))) (\<lambda>_.
     return next_log_time'))))))"
    have "raises_last ?m"
      by (intro raises_last_intros) (simp_all add: raises_last_intros)
    then have "\<exists>new. trace (snd (?m w)) = trace w @ new \<and>
        (filter raised new = [] \<or>
         (\<exists>init c x. new = init @ [Op c (Raises x)] \<and> filter raised init = [] \<and>
            fst (?m w) = Exn x))"
      unfolding raises_last_def by (rule spec)
    then show "\<exists>new. trace (snd (tick env start_time next_log_time w)) = trace w @ new \<and>
        (filter raised new = [] \<or>
         (\<exists>init c x. new = init @ [Op c (Raises x)] \<and> filter raised init = [] \<and>
            fst (tick env start_time next_log_time w) = Exn x))"
      by (simp only: tick_def)
  qed
  then show ?thesis by simp
qed

lemma raises_last_loop: "raises_last (loop env start_time fuel next_log_time)"
proof (induction fuel arbitrary: next_log_time)
  case 0
  show ?case by (simp add: raises_last_def)
next
  case (Suc fuel)
  have "loop env start_time (Suc fuel) next_log_time =
        (\<lambda>w. if running (obj w)
              then andthen (tick env start_time next_log_time)
                     (\<lambda>nx. loop env start_time fuel nx) w
              else return () w)"
    by (rule ext) (simp add: andthen_def return_def split: prod.splits res.splits)
  moreover have "raises_last (\<lambda>w. if running (obj w)
              then andthen (tick env start_time next_log_time)
                     (\<lambda>nx. loop env start_time fuel nx) w
              else return () w)"
  proof -
    have a: "raises_last (andthen (tick env start_time next_log_time)
                     (\<lambda>nx. loop env start_time fuel nx))"
      by (intro raises_last_andthen raises_last_tick Suc.IH)
    show ?thesis
      unfolding raises_last_def
    proof
      fix w
      show "\<exists>new. trace (snd (if running (obj w)
              then andthen (tick env start_time next_log_time)
                     (\<lambda>nx. loop env start_time fuel nx) w
              else return () w)) = trace w @ new \<and>
        (filter raised new = [] \<or>
         (\<exists>init c x. new = init @ [Op c (Raises x)] \<and> filter raised init = [] \<and>
            fst (if running (obj w)
              then andthen (tick env start_time next_log_time)
                     (\<lambda>nx. loop env start_time fuel nx) w
              else return () w) = Exn x))"
      proof (cases "running (obj w)")
        case True
        then show ?thesis using a unfolding raises_last_def by simp
      next
        case False
        then show ?thesis by (simp add: return_def)
      qed
    qed
  qed
  ultimately show ?case by simp
qed

lemma raises_last_session: "raises_last (session env fuel)"
  unfolding session_def initialize_log_file_def
  by (intro raises_last_intros raises_last_loop)

section \<open>\<open>cleanup\<close>: properties\<close>

lemma cleanup_zero_raises:
  assumes "load (obj w) \<noteq> None" and "env (ops w) = Raises x"
  shows "trace (snd (cleanup env w)) =
           trace w @ [Say TurningOff, Op (SetCurrent 0) (Raises x)] @
           (case x of Exc c \<Rightarrow> [Say (CleanupError (Exc c)), Say LoggedTo] | _ \<Rightarrow> [])"
  using assms
  by (cases x)
     (simp_all add: cleanup_def andthen_def except_Exception_def say_def perform_def
        set_running_def Let_def)

lemma cleanup_zero_returns:
  assumes "load (obj w) \<noteq> None" and "env (ops w) = Returns v"
  shows "trace (snd (cleanup env w)) =
           trace w @ [Say TurningOff, Op (SetCurrent 0) (Returns v), Op InputOff (env (Suc (ops w)))] @
           (case env (Suc (ops w)) of
              Returns u \<Rightarrow> [Say TurnedOffSafely, Say LoggedTo]
            | Raises (Exc c) \<Rightarrow> [Say (CleanupError (Exc c)), Say LoggedTo]
            | Raises _ \<Rightarrow> [])"
  using assms
  by (simp add: cleanup_def andthen_def except_Exception_def say_def perform_def
        set_running_def Let_def split: outcome.splits exn.splits)

lemma cleanup_commands:
  assumes "load (obj w) \<noteq> None"
  shows "\<exists>oc post.
           trace (snd (cleanup env w)) = trace w @ [Say TurningOff, Op (SetCurrent 0) oc] @ post \<and>
           (case oc of Returns v \<Rightarrow> commands post = [InputOff] | Raises x \<Rightarrow> commands post = [])"
proof (cases "env (ops w)")
  case (Returns v)
  from cleanup_zero_returns [of w env v, OF assms Returns]
  show ?thesis
    by (intro exI [of _ "Returns v"]
          exI [of _ "Op InputOff (env (Suc (ops w))) #
            (case env (Suc (ops w)) of
               Returns u \<Rightarrow> [Say TurnedOffSafely, Say LoggedTo]
             | Raises (Exc c) \<Rightarrow> [Say (CleanupError (Exc c)), Say LoggedTo]
             | Raises _ \<Rightarrow> [])"])
       (simp split: outcome.splits exn.splits)
next
  case (Raises x)
  from cleanup_zero_raises [of w env x, OF assms Raises]
  show ?thesis
    by (intro exI [of _ "Raises x"]
          exI [of _ "(case x of Exc c \<Rightarrow> [Say (CleanupError (Exc c)), Say LoggedTo] | _ \<Rightarrow> [])"])
       (simp split: exn.splits)
qed

lemma commands_member: "Op c oc \<in> set evs \<Longrightarrow> c \<in> set (commands evs)"
  by (induction evs rule: commands.induct) auto

lemma commands_append: "commands (xs @ ys) = commands xs @ commands ys"
  by (induction xs rule: commands.induct) auto

lemma clock_read_commands: "ClockRead \<notin> set (commands evs) \<Longrightarrow> filter is_clock_read evs = []"
proof (induction evs rule: commands.induct)
  case 1
  then show ?case by simp
next
  case (2 c oc evs)
  then show ?case by (cases c) auto
next
  case (3 m evs)
  then show ?case by simp
qed

lemma cleanup_shape:
  "\<exists>cnew. trace (snd (cleanup env w)) = trace w @ cnew \<and>
          set (commands cnew) \<subseteq> {SetCurrent 0, InputOff} \<and>
          fst (cleanup env w) \<noteq> Pending \<and>
          (fst (cleanup env w) = Ret () \<or> filter interrupted cnew \<noteq> [])"
proof (cases "load (obj w) = None")
  case True
  then show ?thesis
    by (simp add: cleanup_def andthen_def say_def set_running_def return_def)
next
  case False
  show ?thesis
  proof (cases "env (ops w)")
    case (Raises x)
    with False show ?thesis
      by (cases x)
         (simp_all add: cleanup_def andthen_def except_Exception_def say_def perform_def
            set_running_def Let_def)
  next
    case r0: (Returns v)
    show ?thesis
    proof (cases "env (Suc (ops w))")
      case (Returns u)
      with False r0 show ?thesis
        by (simp add: cleanup_def andthen_def except_Exception_def say_def perform_def
            set_running_def Let_def)
    next
      case (Raises x)
      with False r0 show ?thesis
        by (cases x)
           (simp_all add: cleanup_def andthen_def except_Exception_def say_def perform_def
              set_running_def Let_def)
    qed
  qed
qed

section \<open>\<open>run\<close>: properties\<close>

lemma with_KELSerial_exit:
  assumes "env (ops w) = Returns h" and "with_KELSerial env (session env fuel) w = (r, w')"
    and "r \<noteq> Pending"
  shows "load (obj w') \<noteq> None \<and> (\<exists>pre ocr. trace w' = pre @ [Op Release ocr])"
proof -
  let ?w1 = "w\<lparr>ops := ops w + 1, trace := trace w @ [Op Connect (Returns h)]\<rparr>"
  let ?w1' = "?w1\<lparr>obj := (obj ?w1)\<lparr>load := Some (KEL (port (obj ?w1)))\<rparr>\<rparr>"
  have p: "perform env Connect w = (Ret h, ?w1)"
    using assms(1) by (simp add: perform_def Let_def)
  obtain r2 w2 where b: "session env fuel ?w1' = (r2, w2)" by (cases "session env fuel ?w1'")
  have l2: "load (obj w2) = load (obj ?w1')"
    using keeps_handle_session b by (rule keeps_handleD)
  have np: "r2 \<noteq> Pending"
    using assms(2,3) p b by (auto simp: with_KELSerial_def)
  have "w' = w2\<lparr>ops := ops w2 + 1, trace := trace w2 @ [Op Release (env (ops w2))]\<rparr>"
    using assms(2) p b np
    by (cases r2; cases "env (ops w2)") (auto simp: with_KELSerial_def perform_def Let_def)
  with l2 show ?thesis by auto
qed

lemma run_handlers_exit:
  assumes "m w = (r, w1)" and "run_handlers m w = (r', w')"
  shows "(r' = Pending \<longleftrightarrow> r = Pending) \<and> obj w' = obj w1 \<and>
         (\<exists>mid. trace w' = trace w1 @ mid \<and> commands mid = [])"
proof (cases r)
  case (Ret a)
  with assms show ?thesis by (auto simp: run_handlers_def)
next
  case (Exn x)
  with assms show ?thesis
    by (cases x) (auto simp: run_handlers_def say_def andthen_def raise_def)
next
  case Pending
  with assms show ?thesis by (auto simp: run_handlers_def)
qed

lemma run_finish:
  assumes "try_finally (run_handlers m) (cleanup env) w0 = (r, w')" and "m w0 = (r1, w1)"
    and "r1 \<noteq> Pending"
  shows "\<exists>post. trace w' = trace w1 @ post \<and>
           set (commands post) \<subseteq> {SetCurrent 0, InputOff} \<and> r \<noteq> Pending \<and>
           (\<forall>c. r1 = Exn (Exc c) \<longrightarrow>
              (\<exists>post'. post = Say (ErrorMsg (Exc c)) # post') \<and>
              (filter interrupted post = [] \<longrightarrow> r = Exn (Exc c)))"
proof -
  obtain r2 w2 where h: "run_handlers m w0 = (r2, w2)" by (cases "run_handlers m w0")
  obtain mid where o2: "r2 \<noteq> Pending" and t2: "trace w2 = trace w1 @ mid"
    and mid: "mid = (case r1 of Exn KeyboardInterrupt \<Rightarrow> [Say Stopping]
                     | Exn (Exc c) \<Rightarrow> [Say (ErrorMsg (Exc c))] | _ \<Rightarrow> [])"
    and r2: "r2 = (case r1 of Exn KeyboardInterrupt \<Rightarrow> Ret () | _ \<Rightarrow> r1)"
    using assms(2,3) h
    by (cases r1; (cases "case r1 of Exn x \<Rightarrow> x")?)
       (auto simp: run_handlers_def say_def andthen_def raise_def split: exn.splits)
  from cleanup_shape [of env w2]
  obtain cnew where t3: "trace (snd (cleanup env w2)) = trace w2 @ cnew"
    and c3: "set (commands cnew) \<subseteq> {SetCurrent 0, InputOff}"
    and n3: "fst (cleanup env w2) \<noteq> Pending"
    and i3: "fst (cleanup env w2) = Ret () \<or> filter interrupted cnew \<noteq> []"
    by blast
  have w': "w' = snd (cleanup env w2)"
    and r: "r = (case fst (cleanup env w2) of Ret u \<Rightarrow> r2 | Exn x \<Rightarrow> Exn x | Pending \<Rightarrow> Pending)"
    using assms(1) h o2
    by (cases r2; cases "cleanup env w2"; cases "fst (cleanup env w2)"; auto simp: try_finally_def)+
  have cm: "commands mid = []"
    using mid by (auto split: res.splits exn.splits)
  have im: "filter interrupted mid = []"
    using mid by (auto split: res.splits exn.splits)
  have "trace w' = trace w1 @ (mid @ cnew)" using w' t3 t2 by simp
  moreover have "set (commands (mid @ cnew)) \<subseteq> {SetCurrent 0, InputOff}"
    using c3 cm by (simp add: commands_append)
  moreover have "r \<noteq> Pending"
    using r n3 o2 by (cases "fst (cleanup env w2)") auto
  moreover have "\<forall>c. r1 = Exn (Exc c) \<longrightarrow>
              (\<exists>post'. mid @ cnew = Say (ErrorMsg (Exc c)) # post') \<and>
              (filter interrupted (mid @ cnew) = [] \<longrightarrow> r = Exn (Exc c))"
    using mid r2 r i3 im by (auto split: res.splits)
  ultimately show ?thesis by blast
qed

lemma with_KELSerial_connect_fails:
  assumes "env (ops w0) = Raises x"
  shows "with_KELSerial env body w0 =
           (Exn x, w0\<lparr>ops := ops w0 + 1, trace := trace w0 @ [Op Connect (Raises x)]\<rparr>)"
  using assms by (simp add: with_KELSerial_def perform_def Let_def)

lemma with_KELSerial_shape:
  assumes "env (ops w0) = Returns h"
    and "with_KELSerial env (session env fuel) w0 = (r1, w1)"
  shows "\<exists>snew rs.
           (filter raised snew = [] \<or>
            (\<exists>init c x. snew = init @ [Op c (Raises x)] \<and> filter raised init = [] \<and> rs = Exn x)) \<and>
           (rs = Pending \<and> r1 = Pending \<and>
              trace w1 = trace w0 @ [Op Connect (Returns h)] @ snew \<or>
            rs \<noteq> Pending \<and>
              (\<exists>ocr. trace w1 = trace w0 @ [Op Connect (Returns h)] @ snew @ [Op Release ocr] \<and>
                     r1 = (case ocr of Returns u \<Rightarrow> rs | Raises y \<Rightarrow> Exn y)))"
proof -
  let ?w1 = "w0\<lparr>ops := ops w0 + 1, trace := trace w0 @ [Op Connect (Returns h)]\<rparr>"
  let ?w1' = "?w1\<lparr>obj := (obj ?w1)\<lparr>load := Some (KEL (port (obj ?w1)))\<rparr>\<rparr>"
  have p: "perform env Connect w0 = (Ret h, ?w1)"
    using assms(1) by (simp add: perform_def Let_def)
  obtain rs w2 where b: "session env fuel ?w1' = (rs, w2)" by (cases "session env fuel ?w1'")
  from raises_lastD [OF raises_last_session b]
  obtain snew where t2: "trace w2 = trace ?w1' @ snew"
    and c2: "filter raised snew = [] \<or>
            (\<exists>init c x. snew = init @ [Op c (Raises x)] \<and> filter raised init = [] \<and> rs = Exn x)"
    by blast
  show ?thesis
  proof (cases "rs = Pending")
    case True
    then have "with_KELSerial env (session env fuel) w0 = (Pending, w2)"
      using p b by (simp add: with_KELSerial_def)
    with assms(2) True t2 c2 show ?thesis
      by (intro exI [of _ snew] exI [of _ rs]) auto
  next
    case False
    have "w1 = w2\<lparr>ops := ops w2 + 1, trace := trace w2 @ [Op Release (env (ops w2))]\<rparr> \<and>
          r1 = (case env (ops w2) of Returns u \<Rightarrow> rs | Raises y \<Rightarrow> Exn y)"
      using assms(2) p b False
      by (cases rs; cases "env (ops w2)") (auto simp: with_KELSerial_def perform_def Let_def)
    with False t2 c2 show ?thesis
      by (intro exI [of _ snew] exI [of _ rs]) auto
  qed
qed

lemmas run_defs = run_def andthen_def say_def try_finally_def run_handlers_def with_KELSerial_def
  perform_def cleanup_def session_def initialize_log_file_def tick_def lift_def return_def raise_def
  set_running_def except_Exception_def world0_def get_scheduled_current_def index_py_def
  fresh_def init_def example_points_def docstring_scheduler_def Let_def

lemma connected_fields:
  "ops connected_world = 0" "trace connected_world = []" "running (obj connected_world)"
  "logging_interval (obj connected_world) = 1" "schedule (obj connected_world) = example_points"
  "load (obj connected_world) \<noteq> None"
  by (simp_all add: connected_world_def world0_def docstring_scheduler_def fresh_def init_def)

text \<open>
  Where \<open>cleanup\<close> stands in a run. Once the device is connected, every way in which
  \<open>run\<close> gives control back passes through \<open>cleanup\<close>, and it does so after the \<open>with\<close>
  block has released the serial port: with no device command in between, the command
  setting the current to zero is issued on the released handle; the command switching the
  input off follows exactly when the first one did not raise.
\<close>

lemma run_exit_shutdown:
  assumes "env (ops w) = Returns h" and "run env fuel w = (r, w')" and "r \<noteq> Pending"
  shows "\<exists>pre ocr mid oc post.
           trace w' = pre @ [Op Release ocr] @ mid @ [Say TurningOff, Op (SetCurrent 0) oc] @ post \<and>
           commands mid = [] \<and>
           (case oc of Returns v \<Rightarrow> commands post = [InputOff] | Raises x \<Rightarrow> commands post = [])"
proof -
  let ?w0 = "w\<lparr>trace := trace w @ [Say Connecting]\<rparr>"
  let ?m = "with_KELSerial env (session env fuel)"
  obtain r1 w1 where m: "?m ?w0 = (r1, w1)" by (cases "?m ?w0")
  obtain r2 w2 where h: "run_handlers ?m ?w0 = (r2, w2)" by (cases "run_handlers ?m ?w0")
  have run: "run env fuel w = try_finally (run_handlers ?m) (cleanup env) ?w0"
    by (simp add: run_def andthen_def say_def)
  have np2: "r2 \<noteq> Pending"
    using assms(2,3) run h by (auto simp: try_finally_def)
  from run_handlers_exit [OF m h] np2
  obtain mid where np1: "r1 \<noteq> Pending" and o2: "obj w2 = obj w1"
    and t2: "trace w2 = trace w1 @ mid" and cm: "commands mid = []"
    by auto
  have "env (ops ?w0) = Returns h" using assms(1) by simp
  from with_KELSerial_exit [OF this m np1]
  obtain pre ocr where l1: "load (obj w1) \<noteq> None" and t1: "trace w1 = pre @ [Op Release ocr]"
    by auto
  have l2: "load (obj w2) \<noteq> None" using l1 o2 by simp
  from cleanup_commands [OF l2, of env]
  obtain oc post where
    t3: "trace (snd (cleanup env w2)) = trace w2 @ [Say TurningOff, Op (SetCurrent 0) oc] @ post"
    and cp: "case oc of Returns v \<Rightarrow> commands post = [InputOff] | Raises x \<Rightarrow> commands post = []"
    by auto
  have "w' = snd (cleanup env w2)"
    using assms(2) run h np2
    by (cases r2; cases "cleanup env w2"; cases "fst (cleanup env w2)")
       (auto simp: try_finally_def)
  with t3 t2 t1
  have "trace w' = pre @ [Op Release ocr] @ mid @ [Say TurningOff, Op (SetCurrent 0) oc] @ post"
    by simp
  with cm cp show ?thesis by blast
qed

lemma run_exit_shutdown_example:
  "env_interrupt (ops (world0 docstring_scheduler)) = Returns 0 \<and>
   fst (run env_interrupt 2 (world0 docstring_scheduler)) \<noteq> Pending \<and>
   (\<exists>pre ocr mid oc post.
      trace (snd (run env_interrupt 2 (world0 docstring_scheduler))) =
        pre @ [Op Release ocr] @ mid @ [Say TurningOff, Op (SetCurrent 0) oc] @ post \<and>
      commands mid = [] \<and>
      (case oc of Returns v \<Rightarrow> commands post = [InputOff] | Raises x \<Rightarrow> commands post = []))"
proof -
  have h1: "env_interrupt (ops (world0 docstring_scheduler)) = Returns 0"
    by (simp add: world0_def env_interrupt_def)
  have h2: "run env_interrupt 2 (world0 docstring_scheduler) =
      (fst (run env_interrupt 2 (world0 docstring_scheduler)),
       snd (run env_interrupt 2 (world0 docstring_scheduler)))"
    by simp
  have h3: "fst (run env_interrupt 2 (world0 docstring_scheduler)) \<noteq> Pending"
    by (simp add: run_defs env_interrupt_def numeral_2_eq_2)
  from run_exit_shutdown [OF h1 h2 h3] h1 h3 show ?thesis by blast
qed

text \<open>
  C1. The claim asks that on every exit of the loop the current is set to zero and the
  input is switched off before \<open>run\<close> gives control back. \<open>run\<close> attempts this in its
  \<open>finally\<close> clause, but \<open>cleanup\<close> runs after the \<open>with\<close> block has released the port. First
  input: \<open>Ctrl+C\<close> during the sleep, and the commands issued after the release raise. \<open>run\<close>
  returns normally, the last device command is the failed \<open>SetCurrent 0\<close>, and the input
  was never switched off: the load keeps drawing the last scheduled current. Second input:
  the load is unplugged during the first pass; again the command switching the input off
  is never issued.
\<close>

theorem run_exit_leaves_load_on:
  "fst (run env_port_closed 2 (world0 docstring_scheduler)) = Ret () \<and>
   commands (trace (snd (run env_port_closed 2 (world0 docstring_scheduler)))) =
     [Connect, QueryModel, QueryStatus, SetCurrent 0, InputOn, InitLog, ClockRead,
      ClockRead, SetCurrent 1, MeasureVoltage, MeasureCurrent, MeasurePower,
      Append 1 9 10 11, ClockRead, Sleep 0, Release, SetCurrent 0] \<and>
   last (trace (snd (run env_port_closed 2 (world0 docstring_scheduler)))) = Say LoggedTo \<and>
   fst (run env_unplugged 1 (world0 docstring_scheduler)) = Exn (Exc SerialException) \<and>
   commands (trace (snd (run env_unplugged 1 (world0 docstring_scheduler)))) =
     [Connect, QueryModel, QueryStatus, SetCurrent 0, InputOn, InitLog, ClockRead,
      ClockRead, SetCurrent 1, MeasureVoltage, Release, SetCurrent 0]"
  by (simp add: run_defs env_port_closed_def env_unplugged_def numeral_2_eq_2)

text \<open>
  C3, as the code has it. Both shutdown commands sit in one \<open>try\<close> block. When the command
  setting the current to zero raises an \<open>Exception\<close>, the command switching the input off
  is not attempted; the failure is printed and \<open>cleanup\<close> returns normally. When the first
  command succeeds and switching the input off raises an \<open>Exception\<close>, that failure is
  printed and \<open>cleanup\<close> returns normally, too.
\<close>

theorem cleanup_failure_logged:
  assumes "load (obj w) \<noteq> None"
  shows "(env (ops w) = Raises (Exc c) \<longrightarrow>
            cleanup env w =
              (Ret (), w\<lparr>obj := (obj w)\<lparr>running := False\<rparr>, ops := ops w + 1,
                          trace := trace w @ [Say TurningOff, Op (SetCurrent 0) (Raises (Exc c)),
                                              Say (CleanupError (Exc c)), Say LoggedTo]\<rparr>)) \<and>
         (env (ops w) = Returns v \<and> env (ops w + 1) = Raises (Exc c) \<longrightarrow>
            cleanup env w =
              (Ret (), w\<lparr>obj := (obj w)\<lparr>running := False\<rparr>, ops := ops w + 2,
                          trace := trace w @ [Say TurningOff, Op (SetCurrent 0) (Returns v),
                                              Op InputOff (Raises (Exc c)),
                                              Say (CleanupError (Exc c)), Say LoggedTo]\<rparr>))"
  using assms
  by (simp add: cleanup_def andthen_def except_Exception_def say_def perform_def
        set_running_def Let_def)

theorem cleanup_failure_logged_witness:
  "load (obj connected_world) \<noteq> None \<and>
   env_zero_fails (ops connected_world) = Raises (Exc SerialException) \<and>
   cleanup env_zero_fails connected_world =
     (Ret (), connected_world\<lparr>obj := (obj connected_world)\<lparr>running := False\<rparr>, ops := 1,
                 trace := [Say TurningOff, Op (SetCurrent 0) (Raises (Exc SerialException)),
                           Say (CleanupError (Exc SerialException)), Say LoggedTo]\<rparr>) \<and>
   env_off_fails (ops connected_world) = Returns 0 \<and>
   env_off_fails (ops connected_world + 1) = Raises (Exc SerialException) \<and>
   cleanup env_off_fails connected_world =
     (Ret (), connected_world\<lparr>obj := (obj connected_world)\<lparr>running := False\<rparr>, ops := 2,
                 trace := [Say TurningOff, Op (SetCurrent 0) (Returns 0),
                           Op InputOff (Raises (Exc SerialException)),
                           Say (CleanupError (Exc SerialException)), Say LoggedTo]\<rparr>)"
proof -
  have l: "load (obj connected_world) \<noteq> None"
    by (simp add: connected_fields)
  have e1: "env_zero_fails (ops connected_world) = Raises (Exc SerialException)"
    by (simp add: connected_fields env_zero_fails_def)
  have e2: "env_off_fails (ops connected_world) = Returns 0 \<and>
            env_off_fails (ops connected_world + 1) = Raises (Exc SerialException)"
    by (simp add: connected_fields env_off_fails_def)
  show ?thesis
    using cleanup_failure_logged [OF l, of env_zero_fails SerialException 0]
      cleanup_failure_logged [OF l, of env_off_fails SerialException 0] l e1 e2
    by (simp add: connected_fields)
qed

text \<open>
  C3 as stated fails. The command setting the current to zero raises; every later
  operation would succeed; \<open>cleanup\<close> returns normally, and \<open>SetCurrent 0\<close> is the only
  command it issued: switching the input off is not attempted.
\<close>

theorem cleanup_skips_input_off:
  "env_zero_fails 0 = Raises (Exc SerialException) \<and>
   env_zero_fails 1 = Returns 0 \<and>
   fst (cleanup env_zero_fails connected_world) = Ret () \<and>
   commands (trace (snd (cleanup env_zero_fails connected_world))) = [SetCurrent 0]"
  by (simp add: cleanup_def andthen_def except_Exception_def say_def perform_def
        set_running_def Let_def connected_world_def world0_def env_zero_fails_def)








text \<open>
  C4, as the code has it. The append to the log file is not guarded inside the loop. When
  an append of a run raises an \<open>Exception\<close>, the loop ends there: the next operation is the
  release of the serial port, and no clock is read any more, so no further pass runs. When
  the release returns, \<open>run\<close> prints the error next and, unless \<open>cleanup\<close> is interrupted
  by \<open>KeyboardInterrupt\<close> or \<open>SystemExit\<close>, raises it again to the caller.
\<close>

theorem append_error_ends_run:
  assumes run: "run env fuel w = (r, w')"
    and app: "Op (Append e v i p) (Raises (Exc c)) \<in> set (drop (length (trace w)) (trace w'))"
  shows "r \<noteq> Pending \<and>
         (\<exists>pre ocr post.
            drop (length (trace w)) (trace w') =
              pre @ [Op (Append e v i p) (Raises (Exc c)), Op Release ocr] @ post \<and>
            filter is_clock_read post = [] \<and>
            (\<forall>u. ocr = Returns u \<longrightarrow>
               (\<exists>post'. post = Say (ErrorMsg (Exc c)) # post') \<and>
               (filter interrupted post = [] \<longrightarrow> r = Exn (Exc c))))"
proof -
  let ?a = "Op (Append e v i p) (Raises (Exc c))"
  let ?w0 = "w\<lparr>trace := trace w @ [Say Connecting]\<rparr>"
  let ?m = "with_KELSerial env (session env fuel)"
  have run': "try_finally (run_handlers ?m) (cleanup env) ?w0 = (r, w')"
    using run by (simp add: run_def andthen_def say_def)
  obtain r1 w1 where m: "?m ?w0 = (r1, w1)" by (cases "?m ?w0")
  have not_cmd: "\<And>post. set (commands post) \<subseteq> {SetCurrent 0, InputOff} \<Longrightarrow> ?a \<notin> set post"
    using commands_member by fastforce
  show ?thesis
  proof (cases "env (ops w)")
    case (Raises x)
    then have "env (ops ?w0) = Raises x" by simp
    from with_KELSerial_connect_fails [of env ?w0 x "session env fuel", OF this] m
    have r1: "r1 = Exn x" and t1: "trace w1 = trace w @ [Say Connecting, Op Connect (Raises x)]"
      by auto
    from run_finish [OF run' m] r1
    obtain post where "trace w' = trace w1 @ post"
      and "set (commands post) \<subseteq> {SetCurrent 0, InputOff}"
      by auto
    with t1 not_cmd [of post] app show ?thesis by auto
  next
    case (Returns h)
    then have "env (ops ?w0) = Returns h" by simp
    from with_KELSerial_shape [of env ?w0 h fuel r1 w1, OF this m]
    obtain snew rs where
      c2: "filter raised snew = [] \<or>
            (\<exists>init c' x. snew = init @ [Op c' (Raises x)] \<and> filter raised init = [] \<and> rs = Exn x)"
      and sh: "rs = Pending \<and> r1 = Pending \<and>
              trace w1 = trace ?w0 @ [Op Connect (Returns h)] @ snew \<or>
            rs \<noteq> Pending \<and>
              (\<exists>ocr. trace w1 = trace ?w0 @ [Op Connect (Returns h)] @ snew @ [Op Release ocr] \<and>
                     r1 = (case ocr of Returns u \<Rightarrow> rs | Raises y \<Rightarrow> Exn y))"
      by blast
    have in_snew: "?a \<in> set snew \<Longrightarrow>
        \<exists>init. snew = init @ [?a] \<and> rs = Exn (Exc c)"
    proof -
      assume a: "?a \<in> set snew"
      have ra: "raised ?a" by simp
      from a ra have "filter raised snew \<noteq> []"
        unfolding filter_empty_conv by blast
      with c2 obtain init c' x where s: "snew = init @ [Op c' (Raises x)]"
        and fi: "filter raised init = []" and rs: "rs = Exn x"
        by blast
      from fi ra have "?a \<notin> set init"
        unfolding filter_empty_conv by blast
      with a s have "Op c' (Raises x) = ?a" by auto
      with s rs show ?thesis by auto
    qed
    from sh show ?thesis
    proof
      assume pend: "rs = Pending \<and> r1 = Pending \<and>
              trace w1 = trace ?w0 @ [Op Connect (Returns h)] @ snew"
      then have "w' = w1" using run' m by (simp add: try_finally_def run_handlers_def)
      with pend app have "?a \<in> set snew" by auto
      from in_snew [OF this] pend show ?thesis by auto
    next
      assume "rs \<noteq> Pending \<and>
              (\<exists>ocr. trace w1 = trace ?w0 @ [Op Connect (Returns h)] @ snew @ [Op Release ocr] \<and>
                     r1 = (case ocr of Returns u \<Rightarrow> rs | Raises y \<Rightarrow> Exn y))"
      then obtain ocr where np: "rs \<noteq> Pending"
        and t1: "trace w1 = trace ?w0 @ [Op Connect (Returns h)] @ snew @ [Op Release ocr]"
        and r1: "r1 = (case ocr of Returns u \<Rightarrow> rs | Raises y \<Rightarrow> Exn y)"
        by blast
      have np1: "r1 \<noteq> Pending" using r1 np by (cases ocr) auto
      from run_finish [OF run' m np1]
      obtain post where t': "trace w' = trace w1 @ post"
        and cp: "set (commands post) \<subseteq> {SetCurrent 0, InputOff}" and rn: "r \<noteq> Pending"
        and fin: "\<forall>c. r1 = Exn (Exc c) \<longrightarrow>
              (\<exists>post'. post = Say (ErrorMsg (Exc c)) # post') \<and>
              (filter interrupted post = [] \<longrightarrow> r = Exn (Exc c))"
        by blast
      have new: "drop (length (trace w)) (trace w') =
                 [Say Connecting, Op Connect (Returns h)] @ snew @ [Op Release ocr] @ post"
        using t' t1 by simp
      with app not_cmd [OF cp] have "?a \<in> set snew" by auto
      from in_snew [OF this] obtain init where s: "snew = init @ [?a]" and rs: "rs = Exn (Exc c)"
        by blast
      have clk: "filter is_clock_read post = []"
        using cp by (intro clock_read_commands) auto
      have "drop (length (trace w)) (trace w') =
              ([Say Connecting, Op Connect (Returns h)] @ init) @ [?a, Op Release ocr] @ post"
        using new s by simp
      moreover have "\<forall>u. ocr = Returns u \<longrightarrow>
               (\<exists>post'. post = Say (ErrorMsg (Exc c)) # post') \<and>
               (filter interrupted post = [] \<longrightarrow> r = Exn (Exc c))"
        using fin r1 rs by auto
      ultimately show ?thesis using rn clk by blast
    qed
  qed
qed

lemma run_sink_fails_eval:
  "run env_sink_fails 3 (world0 docstring_scheduler) =
     (Exn (Exc OSError),
      \<lparr>obj = docstring_scheduler\<lparr>load := Some (KEL ''/dev/ttyACM0''), running := False\<rparr>,
       ops = 16,
       trace =
         [Say Connecting, Op Connect (Returns 0), Op QueryModel (Returns 1),
          Say ConnectedTo, Op QueryStatus (Returns 2), Say StatusIs,
          Say SettingMode, Op (SetCurrent 0) (Returns 3), Say TurningOnInput,
          Op InputOn (Returns 4), Op InitLog (Returns 5), Say InitializedLog,
          Say Starting, Say PressCtrlC, Op ClockRead (Returns 6),
          Op ClockRead (Returns 7), Op (SetCurrent 1) (Returns 8),
          Op MeasureVoltage (Returns 9), Op MeasureCurrent (Returns 10),
          Op MeasurePower (Returns 11),
          Op (Append 1 9 10 11) (Raises (Exc OSError)),
          Op Release (Returns 13), Say (ErrorMsg (Exc OSError)),
          Say TurningOff, Op (SetCurrent 0) (Returns 14),
          Op InputOff (Returns 15), Say TurnedOffSafely, Say LoggedTo]\<rparr>)"
  by (simp add: run_defs env_sink_fails_def numeral_3_eq_3)

theorem append_error_ends_run_witness:
  "fst (run env_sink_fails 3 (world0 docstring_scheduler)) = Exn (Exc OSError) \<and>
   Op (Append 1 9 10 11) (Raises (Exc OSError)) \<in>
     set (trace (snd (run env_sink_fails 3 (world0 docstring_scheduler)))) \<and>
   (\<exists>pre ocr post.
      trace (snd (run env_sink_fails 3 (world0 docstring_scheduler))) =
        pre @ [Op (Append 1 9 10 11) (Raises (Exc OSError)), Op Release ocr] @ post \<and>
      filter is_clock_read post = [] \<and>
      (\<forall>u. ocr = Returns u \<longrightarrow>
         (\<exists>post'. post = Say (ErrorMsg (Exc OSError)) # post') \<and>
         (filter interrupted post = [] \<longrightarrow>
            fst (run env_sink_fails 3 (world0 docstring_scheduler)) = Exn (Exc OSError))))"
proof -
  let ?w = "world0 docstring_scheduler"
  let ?r = "fst (run env_sink_fails 3 ?w)"
  let ?w' = "snd (run env_sink_fails 3 ?w)"
  have d: "drop (length (trace ?w)) (trace ?w') = trace ?w'"
    by (simp add: world0_def)
  have h1: "run env_sink_fails 3 ?w = (?r, ?w')"
    by simp
  have h2: "Op (Append 1 9 10 11) (Raises (Exc OSError)) \<in> set (trace ?w')"
    by (simp add: run_sink_fails_eval)
  then have h3: "Op (Append 1 9 10 11) (Raises (Exc OSError)) \<in>
                  set (drop (length (trace ?w)) (trace ?w'))"
    by (simp only: d)
  have h4: "?r = Exn (Exc OSError)"
    by (simp add: run_sink_fails_eval)
  from append_error_ends_run [OF h1 h3]
  have "\<exists>pre ocr post.
      trace ?w' = pre @ [Op (Append 1 9 10 11) (Raises (Exc OSError)), Op Release ocr] @ post \<and>
      filter is_clock_read post = [] \<and>
      (\<forall>u. ocr = Returns u \<longrightarrow>
         (\<exists>post'. post = Say (ErrorMsg (Exc OSError)) # post') \<and>
         (filter interrupted post = [] \<longrightarrow> ?r = Exn (Exc OSError)))"
    unfolding d by (rule conjunct2)
  with h2 h4 show ?thesis by blast
qed

text \<open>
  C4 as stated fails. The append of the first pass raises \<open>OSError\<close>; three passes are
  allowed, yet \<open>run\<close> ends with that exception after a single pass: the error is printed,
  the load is switched off, and no clock reading follows the failed append.
\<close>

theorem run_sink_failure_ends_loop:
  "fst (run env_sink_fails 3 (world0 docstring_scheduler)) = Exn (Exc OSError) \<and>
   trace (snd (run env_sink_fails 3 (world0 docstring_scheduler))) =
     [Say Connecting, Op Connect (Returns 0), Op QueryModel (Returns 1),
      Say ConnectedTo, Op QueryStatus (Returns 2), Say StatusIs,
      Say SettingMode, Op (SetCurrent 0) (Returns 3), Say TurningOnInput,
      Op InputOn (Returns 4), Op InitLog (Returns 5), Say InitializedLog,
      Say Starting, Say PressCtrlC, Op ClockRead (Returns 6),
      Op ClockRead (Returns 7), Op (SetCurrent 1) (Returns 8),
      Op MeasureVoltage (Returns 9), Op MeasureCurrent (Returns 10),
      Op MeasurePower (Returns 11),
      Op (Append 1 9 10 11) (Raises (Exc OSError)),
      Op Release (Returns 13), Say (ErrorMsg (Exc OSError)),
      Say TurningOff, Op (SetCurrent 0) (Returns 14),
      Op InputOff (Returns 15), Say TurnedOffSafely, Say LoggedTo]"
  by (simp add: run_sink_fails_eval)

end
